theory Spec2Isabelle
  imports Complex_Main "HOL-Library.Word"
begin

section \<open>Mean nuclear shape from individual meshes\<close>

text \<open>
  A shallow embedding of \<^verbatim>\<open>normal_mode_analysis/mean_nuc_mesh_from_data.py\<close>:
  the rasterizer \<^verbatim>\<open>get_binary_mask_from_mesh\<close>, the aggregation
  \<^verbatim>\<open>get_mean_mask\<close>, the z-rescaling \<^verbatim>\<open>fix_z\<close>, the surface reconstruction
  \<^verbatim>\<open>get_mean_mesh\<close> and the master function
  \<^verbatim>\<open>get_mean_mesh_from_individual_meshes\<close>.

  Conventions of the model.
  \<^item> A NumPy array of three axes is a shape together with its elements, read by index
    triple in the order of the axes. Elements of dtype \<^verbatim>\<open>uint8\<close> are \<open>8 word\<close>, so
    that \<open>+\<close> and \<open>*\<close> wrap around as NumPy's do.
  \<^item> Floating-point numbers are real numbers (no rounding error), extended by
    NumPy's \<^verbatim>\<open>inf\<close> and \<^verbatim>\<open>nan\<close>.
  \<^item> The libraries the source calls but does not contain are parameters: the
    enclosed-point test of VTK (\<open>enc\<close>) and the marching-cubes extraction of
    scikit-image (\<open>mc\<close>). A dataset is the list of its meshes, in row order.
  \<^item> An exception is a value of type \<open>error\<close>, returned as \<open>Inl\<close>.
  \<^item> The z-planes of one mesh are processed one after the other, in increasing z. The
    source hands them to a pool of two threads; how those threads interleave on the
    buffers they share is not part of this model.
\<close>

subsection \<open>Errors\<close>

datatype error =
    KeyError             \<comment> \<open>a dataset row that does not exist\<close>
  | ValueError           \<comment> \<open>NumPy: operands could not be broadcast together\<close>
  | IndexError           \<comment> \<open>an index out of range\<close>
  | ZeroDivisionError    \<comment> \<open>Python's division of a number by zero\<close>
  | LibraryError string  \<comment> \<open>whatever the marching-cubes routine raises\<close>

subsection \<open>Arrays\<close>

type_synonym u8 = "8 word"

type_synonym index3 = "nat \<times> nat \<times> nat"

record 'a ndarray =
  shape :: index3
  elem :: "index3 \<Rightarrow> 'a"

definition in_bounds :: "'a ndarray \<Rightarrow> index3 \<Rightarrow> bool" where
  "in_bounds a p =
     (case (shape a, p) of ((n0, n1, n2), (i0, i1, i2)) \<Rightarrow> i0 < n0 \<and> i1 < n1 \<and> i2 < n2)"

text \<open>\<^verbatim>\<open>np.zeros(shp, dtype=np.uint8)\<close>\<close>

definition np_zeros :: "index3 \<Rightarrow> u8 ndarray" where
  "np_zeros shp = \<lparr>shape = shp, elem = (\<lambda>p. 0)\<rparr>"

text \<open>
  \<^verbatim>\<open>yy, xx = np.meshgrid(np.arange(ny), np.arange(nx))\<close> followed by
  \<^verbatim>\<open>x = xx.flatten()\<close> and \<^verbatim>\<open>y = yy.flatten()\<close>. With the default indexing both
  grids have \<open>nx\<close> rows and \<open>ny\<close> columns; row \<open>r\<close> of \<open>yy\<close> is \<^verbatim>\<open>arange(ny)\<close> and
  row \<open>r\<close> of \<open>xx\<close> is \<open>r\<close> repeated. Flattening concatenates the rows.
\<close>

definition meshgrid_yy :: "nat \<Rightarrow> nat \<Rightarrow> nat list" where
  "meshgrid_yy ny nx = concat (map (\<lambda>r. [0..<ny]) [0..<nx])"

definition meshgrid_xx :: "nat \<Rightarrow> nat \<Rightarrow> nat list" where
  "meshgrid_xx ny nx = concat (map (\<lambda>r. replicate ny r) [0..<nx])"

subsection \<open>The rasterizer\<close>

text \<open>
  The buffers that \<^verbatim>\<open>ProcessThisPlane\<close> shares with its enclosing function: the query
  points \<^verbatim>\<open>xypts\<close>, the classification \<^verbatim>\<open>vert_is_inside\<close> and the output \<^verbatim>\<open>mask\<close> (\<open>the_mask\<close>).
\<close>

record raster_state =
  xypts :: "index3 list"
  vert_is_inside :: "u8 list"
  the_mask :: "u8 ndarray"

text \<open>\<^verbatim>\<open>for i in range(n_verts): xypts.SetPoint(i, [x[i], y[i], z])\<close>\<close>

definition set_points :: "nat list \<Rightarrow> nat list \<Rightarrow> nat \<Rightarrow> nat \<Rightarrow> index3 list \<Rightarrow> index3 list" where
  "set_points x y n_verts z pts = fold (\<lambda>i ps. ps[i := (x ! i, y ! i, z)]) [0..<n_verts] pts"

text \<open>
  \<^verbatim>\<open>for i in range(n_verts): vert_is_inside[i] = encPoints.IsInside(i)\<close>, where
  \<open>inside\<close> is what the filter computed for the points it was given.
\<close>

definition read_inside :: "bool list \<Rightarrow> nat \<Rightarrow> u8 list \<Rightarrow> u8 list" where
  "read_inside inside n_verts buf = fold (\<lambda>i b. b[i := of_bool (inside ! i)]) [0..<n_verts] buf"

text \<open>
  \<^verbatim>\<open>mask[z, y, x] = vals\<close> with index arrays \<open>y\<close> and \<open>x\<close>: element \<open>i\<close> of \<open>vals\<close>
  goes to position \<open>(z, y[i], x[i])\<close>, in the order of \<open>i\<close>.
\<close>

definition assign_plane :: "u8 ndarray \<Rightarrow> nat \<Rightarrow> nat list \<Rightarrow> nat list \<Rightarrow> u8 list \<Rightarrow> u8 ndarray" where
  "assign_plane m z y x vals =
     fold (\<lambda>i a. a\<lparr>elem := (elem a)((z, y ! i, x ! i) := vals ! i)\<rparr>) [0..<length vals] m"

text \<open>
  One plane. The filter classifies the points of \<^verbatim>\<open>xypts\<close> against the surface
  (\<open>enc polydata p\<close> for a point \<open>p = (x, y, z)\<close>); the plane of the mask receives
  \<^verbatim>\<open>255*vert_is_inside\<close>, a product of \<^verbatim>\<open>uint8\<close>.
\<close>

definition ProcessThisPlane ::
  "('m \<Rightarrow> index3 \<Rightarrow> bool) \<Rightarrow> 'm \<Rightarrow> nat list \<Rightarrow> nat list \<Rightarrow> nat \<Rightarrow> nat \<Rightarrow> raster_state \<Rightarrow> raster_state" where
  "ProcessThisPlane enc polydata x y n_verts z s =
     (let s1 = s\<lparr>xypts := set_points x y n_verts z (xypts s)\<rparr>;
          inside = map (enc polydata) (xypts s1);
          s2 = s1\<lparr>vert_is_inside := read_inside inside n_verts (vert_is_inside s1)\<rparr>
      in s2\<lparr>the_mask := assign_plane (the_mask s2) z y x (map (\<lambda>v. 255 * v) (vert_is_inside s2))\<rparr>)"

text \<open>
  The whole volume for one mesh and \<^verbatim>\<open>imsize = (nx, ny, nz)\<close>, with the default
  \<^verbatim>\<open>save_flag = False\<close> that every caller uses. The mask is allocated with axes
  \<open>(nz, ny, nx)\<close>.
\<close>

definition get_binary_mask_from_mesh :: "('m \<Rightarrow> index3 \<Rightarrow> bool) \<Rightarrow> 'm \<Rightarrow> index3 \<Rightarrow> u8 ndarray" where
  "get_binary_mask_from_mesh enc polydata imsize =
     (case imsize of (nx, ny, nz) \<Rightarrow>
        let mask0 = np_zeros (nz, ny, nx);
            y = meshgrid_yy ny nx;
            x = meshgrid_xx ny nx;
            n_verts = length y;
            s0 = \<lparr>xypts = set_points x y n_verts 0 (replicate n_verts (0, 0, 0)),
                  vert_is_inside = replicate n_verts 0,
                  the_mask = mask0\<rparr>
        in the_mask (fold (ProcessThisPlane enc polydata x y n_verts) [0..<nz] s0))"

subsection \<open>Floating-point values\<close>

text \<open>
  A NumPy \<^verbatim>\<open>float64\<close> without its rounding: a real number, an infinity (of either
  sign) or not-a-number. NumPy divides by zero without raising.
\<close>

datatype fl = Fin real | Infty | NaN

fun fl_mult :: "fl \<Rightarrow> fl \<Rightarrow> fl" where
  "fl_mult NaN b = NaN"
| "fl_mult a NaN = NaN"
| "fl_mult (Fin a) (Fin b) = Fin (a * b)"
| "fl_mult (Fin a) Infty = (if a = 0 then NaN else Infty)"
| "fl_mult Infty (Fin b) = (if b = 0 then NaN else Infty)"
| "fl_mult Infty Infty = Infty"

fun fl_div :: "fl \<Rightarrow> fl \<Rightarrow> fl" where
  "fl_div NaN b = NaN"
| "fl_div a NaN = NaN"
| "fl_div (Fin a) (Fin b) = (if b = 0 then (if a = 0 then NaN else Infty) else Fin (a / b))"
| "fl_div (Fin a) Infty = Fin 0"
| "fl_div Infty (Fin b) = Infty"
| "fl_div Infty Infty = NaN"

text \<open>\<^verbatim>\<open>np.round\<close>: to the nearest integer, a tie to the even one.\<close>

definition np_round :: "real \<Rightarrow> int" where
  "np_round r =
     (let f = \<lfloor>r\<rfloor>; d = r - of_int f
      in if d < 1 / 2 then f else if 1 / 2 < d then f + 1 else if even f then f else f + 1)"

subsection \<open>The aggregation\<close>

text \<open>
  \<^verbatim>\<open>np.add\<close> on two arrays of three axes. Along each axis the lengths must agree or
  one of them must be 1, which is then repeated (broadcasting); otherwise NumPy
  raises. The sum of two \<^verbatim>\<open>uint8\<close> arrays is a \<^verbatim>\<open>uint8\<close> array.
\<close>

definition bdim :: "nat \<Rightarrow> nat \<Rightarrow> nat option" where
  "bdim m n = (if m = n then Some m else if m = 1 then Some n else if n = 1 then Some m else None)"

definition bidx :: "nat \<Rightarrow> nat \<Rightarrow> nat" where
  "bidx m i = (if m = 1 then 0 else i)"

definition bpos :: "index3 \<Rightarrow> index3 \<Rightarrow> index3" where
  "bpos shp p =
     (case (shp, p) of ((n0, n1, n2), (i0, i1, i2)) \<Rightarrow> (bidx n0 i0, bidx n1 i1, bidx n2 i2))"

definition np_add :: "u8 ndarray \<Rightarrow> u8 ndarray \<Rightarrow> error + u8 ndarray" where
  "np_add a b =
     (case (shape a, shape b) of ((a0, a1, a2), (b0, b1, b2)) \<Rightarrow>
        (case (bdim a0 b0, bdim a1 b1, bdim a2 b2) of
           (Some n0, Some n1, Some n2) \<Rightarrow>
             Inr \<lparr>shape = (n0, n1, n2),
                  elem = (\<lambda>p. elem a (bpos (shape a) p) + elem b (bpos (shape b) p))\<rparr>
         | _ \<Rightarrow> Inl ValueError))"

text \<open>\<^verbatim>\<open>np.divide(a, n)\<close> of a \<^verbatim>\<open>uint8\<close> array by an integer: a \<^verbatim>\<open>float64\<close> array.\<close>

definition np_divide :: "u8 ndarray \<Rightarrow> nat \<Rightarrow> fl ndarray" where
  "np_divide a n =
     \<lparr>shape = shape a, elem = (\<lambda>p. fl_div (Fin (real (unat (elem a p)))) (Fin (real n)))\<rparr>"

text \<open>
  \<^verbatim>\<open>get_mesh_polydata(df, i)\<close> reads the mesh of row \<open>i\<close>; the dataset is the list
  of its meshes, and a row that does not exist is a \<^verbatim>\<open>KeyError\<close>.
\<close>

definition get_mesh_polydata :: "'m list \<Rightarrow> nat \<Rightarrow> error + 'm" where
  "get_mesh_polydata df i = (if i < length df then Inr (df ! i) else Inl KeyError)"

text \<open>
  The loop \<^verbatim>\<open>for i in range(df.shape[0])\<close> of \<^verbatim>\<open>get_mean_mask\<close>, over the row
  numbers still to come, from the running \<^verbatim>\<open>sum_mask\<close>.
\<close>

fun sum_loop ::
  "('m \<Rightarrow> index3 \<Rightarrow> bool) \<Rightarrow> 'm list \<Rightarrow> index3 \<Rightarrow> nat list \<Rightarrow> u8 ndarray \<Rightarrow> error + u8 ndarray" where
  "sum_loop enc df imsize [] sum_mask = Inr sum_mask"
| "sum_loop enc df imsize (i # rows) sum_mask =
     (case get_mesh_polydata df i of
        Inl e \<Rightarrow> Inl e
      | Inr polydata \<Rightarrow>
          (case np_add sum_mask (get_binary_mask_from_mesh enc polydata imsize) of
             Inl e \<Rightarrow> Inl e
           | Inr sum_mask' \<Rightarrow> sum_loop enc df imsize rows sum_mask'))"

text \<open>
  \<^verbatim>\<open>sum_mask\<close> as it stands when the loop has ended: started from the volume of
  row 0, then every row of \<^verbatim>\<open>range(df.shape[0])\<close> added.
\<close>

definition get_sum_mask :: "('m \<Rightarrow> index3 \<Rightarrow> bool) \<Rightarrow> 'm list \<Rightarrow> index3 \<Rightarrow> error + u8 ndarray" where
  "get_sum_mask enc df imsize =
     (case get_mesh_polydata df 0 of
        Inl e \<Rightarrow> Inl e
      | Inr polydata \<Rightarrow>
          sum_loop enc df imsize [0..<length df] (get_binary_mask_from_mesh enc polydata imsize))"

text \<open>
  Persistent storage: array files by name. \<^verbatim>\<open>get_mean_mask\<close> saves the mean under
  \<^verbatim>\<open>nucleus_mesh_data/mean_nuc_mask\<close> and returns it.
\<close>

type_synonym storage = "string \<rightharpoonup> fl ndarray"

definition get_mean_mask ::
  "('m \<Rightarrow> index3 \<Rightarrow> bool) \<Rightarrow> storage \<Rightarrow> 'm list \<Rightarrow> index3 \<Rightarrow> error + (storage \<times> fl ndarray)" where
  "get_mean_mask enc st df imsize =
     (case get_sum_mask enc df imsize of
        Inl e \<Rightarrow> Inl e
      | Inr sum_mask \<Rightarrow>
          let mean_mask = np_divide sum_mask (length df)
          in Inr (st(''nucleus_mesh_data/mean_nuc_mask'' \<mapsto> mean_mask), mean_mask))"

subsection \<open>Rescaling z\<close>

text \<open>
  \<^verbatim>\<open>fix_z\<close> changes the array it is given. Arrays of vertices live in a heap, one
  array per address, each a sequence of rows; \<^verbatim>\<open>verts\<close> is an address.
\<close>

type_synonym vertex = "fl list"

type_synonym addr = nat

type_synonym heap = "addr \<Rightarrow> vertex list"

text \<open>
  \<^verbatim>\<open>for vert in verts: vert[2] *= dz\<close>, over the row numbers still to come. A row
  with fewer than three coordinates raises, and leaves the rows before it rescaled.
\<close>

fun scale_rows :: "fl \<Rightarrow> addr \<Rightarrow> nat list \<Rightarrow> heap \<Rightarrow> heap \<times> (error + unit)" where
  "scale_rows dz verts [] h = (h, Inr ())"
| "scale_rows dz verts (i # rows) h =
     (let vert = h verts ! i
      in if length vert \<le> 2 then (h, Inl IndexError)
         else scale_rows dz verts rows
                (h(verts := (h verts)[i := vert[2 := fl_mult (vert ! 2) dz]])))"

text \<open>
  \<^verbatim>\<open>dz\<close> and \<^verbatim>\<open>imsize\<close> are Python numbers, so \<^verbatim>\<open>imsize/dz\<close> raises when
  \<^verbatim>\<open>dz\<close> is zero. \<^verbatim>\<open>np.round\<close> returns a NumPy value, so \<^verbatim>\<open>imsize/nz\<close> does not.
\<close>

definition fix_z :: "heap \<Rightarrow> addr \<Rightarrow> real \<Rightarrow> real \<Rightarrow> heap \<times> (error + addr)" where
  "fix_z h verts dz imsize =
     (if dz = 0 then (h, Inl ZeroDivisionError)
      else
        let nz = Fin (of_int (np_round (imsize / dz)));
            dz' = fl_div (Fin imsize) nz
        in (case scale_rows dz' verts [0..<length (h verts)] h of
              (h', Inl e) \<Rightarrow> (h', Inl e)
            | (h', Inr u) \<Rightarrow> (h', Inr verts)))"

subsection \<open>Surface reconstruction and the master function\<close>

text \<open>
  \<^verbatim>\<open>measure.marching_cubes_lewiner(mask, step_size=ss)\<close> is the parameter \<open>mc\<close>:
  it returns vertices, faces, normals and values, or raises. The source's variable
  \<^verbatim>\<open>mask\<close> is \<open>mask_vol\<close> here.
\<close>

type_synonym face = "nat list"

type_synonym 'ss marching_cubes =
  "fl ndarray \<Rightarrow> 'ss \<Rightarrow> error + (vertex list \<times> face list \<times> vertex list \<times> fl list)"

definition get_mean_mesh :: "'ss marching_cubes \<Rightarrow> fl ndarray \<Rightarrow> 'ss \<Rightarrow> error + (vertex list \<times> face list)" where
  "get_mean_mesh mc mask_vol ss =
     (case mc mask_vol ss of
        Inl e \<Rightarrow> Inl e
      | Inr (verts, faces, normals, vals) \<Rightarrow> Inr (verts, faces))"

text \<open>The master function passes \<^verbatim>\<open>imsize\<close> where \<^verbatim>\<open>get_mean_mesh\<close> expects \<^verbatim>\<open>ss\<close>.\<close>

definition get_mean_mesh_from_individual_meshes ::
  "('m \<Rightarrow> index3 \<Rightarrow> bool) \<Rightarrow> index3 marching_cubes \<Rightarrow> storage \<Rightarrow> 'm list \<Rightarrow> index3
     \<Rightarrow> error + (storage \<times> vertex list \<times> face list \<times> fl ndarray)" where
  "get_mean_mesh_from_individual_meshes enc mc st df imsize =
     (case get_mean_mask enc st df imsize of
        Inl e \<Rightarrow> Inl e
      | Inr (st', mask_vol) \<Rightarrow>
          (case get_mean_mesh mc mask_vol imsize of
             Inl e \<Rightarrow> Inl e
           | Inr (verts, faces) \<Rightarrow> Inr (st', verts, faces, mask_vol)))"

subsection \<open>Notions used to state the properties\<close>

text \<open>
  The value that the rasterizer is shown to leave at position \<open>(z, y, x)\<close> of its
  volume: 255 where the grid point \<open>(x, y, z)\<close> is classified inside, 0 elsewhere.
\<close>

definition marker :: "('m \<Rightarrow> index3 \<Rightarrow> bool) \<Rightarrow> 'm \<Rightarrow> index3 \<Rightarrow> u8" where
  "marker enc polydata p = (case p of (k, j, i) \<Rightarrow> 255 * of_bool (enc polydata (i, j, k)))"

text \<open>
  The sum of the occupancy volumes of the dataset at one position, each entry counted
  once and the 8-bit values added as numbers, and the arithmetic mean it gives.
\<close>

definition entry_sum :: "('m \<Rightarrow> index3 \<Rightarrow> bool) \<Rightarrow> 'm list \<Rightarrow> index3 \<Rightarrow> index3 \<Rightarrow> nat" where
  "entry_sum enc df imsize p = (\<Sum>m\<leftarrow>df. unat (elem (get_binary_mask_from_mesh enc m imsize) p))"

definition arithmetic_mean :: "('m \<Rightarrow> index3 \<Rightarrow> bool) \<Rightarrow> 'm list \<Rightarrow> index3 \<Rightarrow> index3 \<Rightarrow> real" where
  "arithmetic_mean enc df imsize p = real (entry_sum enc df imsize p) / real (length df)"

text \<open>A row with its third coordinate multiplied by \<open>dz\<close>; rows with three coordinates.\<close>

definition scale_z :: "fl \<Rightarrow> vertex \<Rightarrow> vertex" where
  "scale_z dz vert = vert[2 := fl_mult (vert ! 2) dz]"

definition has_xyz :: "vertex list \<Rightarrow> bool" where
  "has_xyz vs = list_all (\<lambda>v. 3 \<le> length v) vs"

text \<open>A floating-point value that is a number between two bounds.\<close>

definition fl_between :: "real \<Rightarrow> real \<Rightarrow> fl \<Rightarrow> bool" where
  "fl_between lo hi v = (case v of Fin r \<Rightarrow> lo \<le> r \<and> r \<le> hi | Infty \<Rightarrow> False | NaN \<Rightarrow> False)"

text \<open>
  Inputs for the examples. A mesh that is just a truth value: \<open>True\<close> is a solid that
  encloses every grid point, \<open>False\<close> one that encloses none.
\<close>

definition encloses_all :: "bool \<Rightarrow> index3 \<Rightarrow> bool" where
  "encloses_all m p = m"

text \<open>
  A heap whose arrays all hold the one vertex \<open>(0, 0, 1)\<close>, and a marching-cubes
  routine that returns that vertex and one face whatever it is given.
\<close>

definition heap_one_vertex :: heap where
  "heap_one_vertex a = [[Fin 0, Fin 0, Fin 1]]"


section \<open>Properties of the rasterizer\<close>

subsection \<open>Loops that fill a buffer\<close>

lemma length_fold_update: "length (fold (\<lambda>i ps. ps[i := f i]) rows xs) = length xs"
  by (induction rows arbitrary: xs) simp_all

lemma nth_fold_update:
  "k < length xs \<Longrightarrow> fold (\<lambda>i ps. ps[i := f i]) rows xs ! k = (if k \<in> set rows then f k else xs ! k)"
proof (induction rows arbitrary: xs)
  case Nil
  then show ?case by simp
next
  case (Cons i rows)
  then show ?case by (simp add: nth_list_update)
qed

lemma fold_update_all:
  assumes "length xs = n"
  shows "fold (\<lambda>i ps. ps[i := f i]) [0..<n] xs = map f [0..<n]"
proof (rule nth_equalityI)
  show "length (fold (\<lambda>i ps. ps[i := f i]) [0..<n] xs) = length (map f [0..<n])"
    using assms by (simp add: length_fold_update)
next
  fix k assume "k < length (fold (\<lambda>i ps. ps[i := f i]) [0..<n] xs)"
  then have k: "k < n" using assms by (simp add: length_fold_update)
  then show "fold (\<lambda>i ps. ps[i := f i]) [0..<n] xs ! k = map f [0..<n] ! k"
    using assms by (simp add: nth_fold_update)
qed

lemma set_points_eq:
  "length pts = n \<Longrightarrow> set_points x y n z pts = map (\<lambda>i. (x ! i, y ! i, z)) [0..<n]"
  unfolding set_points_def by (rule fold_update_all)

lemma read_inside_eq:
  "length buf = n \<Longrightarrow> read_inside inside n buf = map (\<lambda>i. of_bool (inside ! i)) [0..<n]"
  unfolding read_inside_def by (rule fold_update_all)

lemma shape_fold_elem:
  "shape (fold (\<lambda>i a. a\<lparr>elem := (elem a)(k i := v i)\<rparr>) rows m) = shape m"
  by (induction rows arbitrary: m) simp_all

lemma elem_fold_elem:
  assumes "\<And>i. i \<in> set rows \<Longrightarrow> v i = g (k i)"
  shows "elem (fold (\<lambda>i a. a\<lparr>elem := (elem a)(k i := v i)\<rparr>) rows m) p
           = (if p \<in> k ` set rows then g p else elem m p)"
  using assms
proof (induction rows arbitrary: m)
  case Nil
  then show ?case by simp
next
  case (Cons i rows)
  let ?F = "\<lambda>i a. a\<lparr>elem := (elem a)(k i := v i)\<rparr>"
  let ?m = "m\<lparr>elem := (elem m)(k i := v i)\<rparr>"
  have step: "elem (fold ?F rows ?m) p = (if p \<in> k ` set rows then g p else elem ?m p)"
    by (rule Cons.IH) (simp add: Cons.prems)
  have vi: "v i = g (k i)"
    by (simp add: Cons.prems)
  have "elem (fold ?F (i # rows) m) p = elem (fold ?F rows ?m) p"
    by simp
  also have "\<dots> = (if p \<in> k ` set rows then g p else elem ?m p)"
    by (rule step)
  also have "\<dots> = (if p \<in> k ` set (i # rows) then g p else elem m p)"
    using vi by auto
  finally show ?case .
qed

lemma shape_assign_plane: "shape (assign_plane m z y x vals) = shape m"
  unfolding assign_plane_def by (rule shape_fold_elem)

lemma length_meshgrid_yy: "length (meshgrid_yy ny nx) = nx * ny"
  unfolding meshgrid_yy_def by (induction nx) simp_all

lemma length_meshgrid_xx: "length (meshgrid_xx ny nx) = nx * ny"
  unfolding meshgrid_xx_def by (induction nx) simp_all

lemma set_zip_meshgrid:
  "set (zip (meshgrid_yy ny nx) (meshgrid_xx ny nx)) = {0..<ny} \<times> {0..<nx}"
proof (induction nx)
  case 0
  show ?case by (simp add: meshgrid_yy_def meshgrid_xx_def)
next
  case (Suc nx)
  have len: "length (meshgrid_yy ny nx) = length (meshgrid_xx ny nx)"
    by (simp add: length_meshgrid_yy length_meshgrid_xx)
  have yy: "meshgrid_yy ny (Suc nx) = meshgrid_yy ny nx @ [0..<ny]"
    by (simp add: meshgrid_yy_def)
  have xx: "meshgrid_xx ny (Suc nx) = meshgrid_xx ny nx @ replicate ny nx"
    by (simp add: meshgrid_xx_def)
  have last: "set (zip [0..<ny] (replicate ny nx)) = {0..<ny} \<times> {nx}"
  proof -
    have "zip [0..<ny] (replicate ny nx) = map (\<lambda>b. (b, nx)) [0..<ny]"
      by (rule nth_equalityI) simp_all
    then show ?thesis by auto
  qed
  have "set (zip (meshgrid_yy ny (Suc nx)) (meshgrid_xx ny (Suc nx)))
          = {0..<ny} \<times> {0..<nx} \<union> {0..<ny} \<times> {nx}"
    by (simp add: yy xx len Suc.IH last)
  also have "\<dots> = {0..<ny} \<times> {0..<Suc nx}"
    by (auto simp: less_Suc_eq)
  finally show ?case .
qed

lemma meshgrid_keys:
  "(\<lambda>i. (z, meshgrid_yy ny nx ! i, meshgrid_xx ny nx ! i)) ` {0..<nx * ny}
     = {z} \<times> {0..<ny} \<times> {0..<nx}"
proof -
  have "(\<lambda>i. (meshgrid_yy ny nx ! i, meshgrid_xx ny nx ! i)) ` {0..<nx * ny}
          = set (zip (meshgrid_yy ny nx) (meshgrid_xx ny nx))"
    by (auto simp: set_zip length_meshgrid_yy length_meshgrid_xx)
  then have "(\<lambda>i. (meshgrid_yy ny nx ! i, meshgrid_xx ny nx ! i)) ` {0..<nx * ny}
          = {0..<ny} \<times> {0..<nx}"
    by (simp add: set_zip_meshgrid)
  then have "(\<lambda>q. (z, q)) ` ((\<lambda>i. (meshgrid_yy ny nx ! i, meshgrid_xx ny nx ! i)) ` {0..<nx * ny})
          = (\<lambda>q. (z, q)) ` ({0..<ny} \<times> {0..<nx})"
    by simp
  then show ?thesis by (auto simp: image_image)
qed

subsection \<open>One plane, all planes\<close>

lemma elem_assign_plane:
  assumes "\<And>i. i < length vals \<Longrightarrow> vals ! i = g (z, y ! i, x ! i)"
  shows "elem (assign_plane m z y x vals) p
           = (if p \<in> (\<lambda>i. (z, y ! i, x ! i)) ` {0..<length vals} then g p else elem m p)"
proof -
  have "elem (fold (\<lambda>i a. a\<lparr>elem := (elem a)((z, y ! i, x ! i) := vals ! i)\<rparr>) [0..<length vals] m) p
          = (if p \<in> (\<lambda>i. (z, y ! i, x ! i)) ` set [0..<length vals] then g p else elem m p)"
    by (rule elem_fold_elem) (simp add: assms)
  then show ?thesis by (simp add: assign_plane_def)
qed

lemma ProcessThisPlane_buffers:
  fixes enc :: "'m \<Rightarrow> index3 \<Rightarrow> bool" and polydata :: 'm and z nx ny :: nat and s :: raster_state
  assumes "length (xypts s) = nx * ny" and "length (vert_is_inside s) = nx * ny"
  defines "s' \<equiv> ProcessThisPlane enc polydata (meshgrid_xx ny nx) (meshgrid_yy ny nx) (nx * ny) z s"
  shows "length (xypts s') = nx * ny"
    and "length (vert_is_inside s') = nx * ny"
    and "shape (the_mask s') = shape (the_mask s)"
    and "vert_is_inside s'
           = map (\<lambda>i. of_bool (enc polydata (meshgrid_xx ny nx ! i, meshgrid_yy ny nx ! i, z))) [0..<nx * ny]"
proof -
  let ?x = "meshgrid_xx ny nx" and ?y = "meshgrid_yy ny nx" and ?n = "nx * ny"
  have pts: "set_points ?x ?y ?n z (xypts s) = map (\<lambda>i. (?x ! i, ?y ! i, z)) [0..<?n]"
    by (rule set_points_eq) (rule assms(1))
  have buf: "read_inside inside ?n (vert_is_inside s) = map (\<lambda>i. of_bool (inside ! i)) [0..<?n]" for inside
    by (rule read_inside_eq) (rule assms(2))
  show "length (xypts s') = ?n"
    by (simp add: s'_def ProcessThisPlane_def Let_def pts)
  show "length (vert_is_inside s') = ?n"
    by (simp add: s'_def ProcessThisPlane_def Let_def buf)
  show "shape (the_mask s') = shape (the_mask s)"
    by (simp add: s'_def ProcessThisPlane_def Let_def shape_assign_plane)
  show "vert_is_inside s' = map (\<lambda>i. of_bool (enc polydata (?x ! i, ?y ! i, z))) [0..<?n]"
    by (simp add: s'_def ProcessThisPlane_def Let_def pts buf)
qed

lemma ProcessThisPlane_mask:
  assumes "length (xypts s) = nx * ny" and "length (vert_is_inside s) = nx * ny"
  shows "elem (the_mask (ProcessThisPlane enc polydata (meshgrid_xx ny nx) (meshgrid_yy ny nx) (nx * ny) z s)) p
           = (if p \<in> {z} \<times> {0..<ny} \<times> {0..<nx} then marker enc polydata p else elem (the_mask s) p)"
proof -
  let ?x = "meshgrid_xx ny nx" and ?y = "meshgrid_yy ny nx" and ?n = "nx * ny"
  let ?s' = "ProcessThisPlane enc polydata ?x ?y ?n z s"
  let ?vals = "map (\<lambda>v. 255 * v) (vert_is_inside ?s')"
  have vis: "vert_is_inside ?s' = map (\<lambda>i. of_bool (enc polydata (?x ! i, ?y ! i, z))) [0..<?n]"
    using assms by (rule ProcessThisPlane_buffers(4))
  have len: "length ?vals = ?n"
    by (simp add: vis)
  have val: "?vals ! i = marker enc polydata (z, ?y ! i, ?x ! i)" if "i < length ?vals" for i
    using that by (simp add: vis marker_def)
  have mask: "the_mask ?s' = assign_plane (the_mask s) z ?y ?x ?vals"
    by (simp add: ProcessThisPlane_def Let_def)
  have "elem (assign_plane (the_mask s) z ?y ?x ?vals) p
          = (if p \<in> (\<lambda>i. (z, ?y ! i, ?x ! i)) ` {0..<length ?vals} then marker enc polydata p
             else elem (the_mask s) p)"
    by (rule elem_assign_plane) (rule val)
  then show ?thesis
    by (simp only: mask len meshgrid_keys)
qed


lemma planes_list:
  fixes enc :: "'m \<Rightarrow> index3 \<Rightarrow> bool" and polydata :: 'm and nx ny :: nat
  defines "P \<equiv> ProcessThisPlane enc polydata (meshgrid_xx ny nx) (meshgrid_yy ny nx) (nx * ny)"
  assumes "length (xypts s) = nx * ny" and "length (vert_is_inside s) = nx * ny"
  shows "length (xypts (fold P zs s)) = nx * ny \<and> length (vert_is_inside (fold P zs s)) = nx * ny
         \<and> shape (the_mask (fold P zs s)) = shape (the_mask s)
         \<and> (\<forall>p. elem (the_mask (fold P zs s)) p
                  = (if p \<in> set zs \<times> {0..<ny} \<times> {0..<nx} then marker enc polydata p
                     else elem (the_mask s) p))"
  using assms(2,3)
proof (induction zs arbitrary: s)
  case Nil
  then show ?case by simp
next
  case (Cons z zs)
  have l1: "length (xypts (P z s)) = nx * ny"
    unfolding P_def using Cons.prems by (rule ProcessThisPlane_buffers(1))
  have l2: "length (vert_is_inside (P z s)) = nx * ny"
    unfolding P_def using Cons.prems by (rule ProcessThisPlane_buffers(2))
  have sh: "shape (the_mask (P z s)) = shape (the_mask s)"
    unfolding P_def using Cons.prems by (rule ProcessThisPlane_buffers(3))
  have el: "elem (the_mask (P z s)) p
              = (if p \<in> {z} \<times> {0..<ny} \<times> {0..<nx} then marker enc polydata p
                 else elem (the_mask s) p)" for p
    unfolding P_def using Cons.prems by (rule ProcessThisPlane_mask)
  note IH = Cons.IH [OF l1 l2]
  have "elem (the_mask (fold P zs (P z s))) p
          = (if p \<in> set (z # zs) \<times> {0..<ny} \<times> {0..<nx} then marker enc polydata p
             else elem (the_mask s) p)" for p
  proof -
    have "elem (the_mask (fold P zs (P z s))) p
            = (if p \<in> set zs \<times> {0..<ny} \<times> {0..<nx} then marker enc polydata p
               else elem (the_mask (P z s)) p)"
      using IH by blast
    then show ?thesis
      by (auto simp: el)
  qed
  moreover have "shape (the_mask (fold P zs (P z s))) = shape (the_mask s)"
    using IH sh by simp
  moreover have "length (xypts (fold P zs (P z s))) = nx * ny"
    and "length (vert_is_inside (fold P zs (P z s))) = nx * ny"
    using IH by blast+
  ultimately show ?case
    by simp
qed

lemma shape_get_binary_mask_from_mesh:
  "shape (get_binary_mask_from_mesh enc polydata (nx, ny, nz)) = (nz, ny, nx)"
proof -
  let ?n = "nx * ny"
  let ?s0 = "\<lparr>xypts = set_points (meshgrid_xx ny nx) (meshgrid_yy ny nx) ?n 0 (replicate ?n (0, 0, 0)),
              vert_is_inside = replicate ?n 0, the_mask = np_zeros (nz, ny, nx)\<rparr>"
  have "length (xypts ?s0) = ?n"
    by (simp add: set_points_eq)
  moreover have "length (vert_is_inside ?s0) = ?n"
    by simp
  ultimately have "shape (the_mask (fold (ProcessThisPlane enc polydata (meshgrid_xx ny nx)
                     (meshgrid_yy ny nx) ?n) [0..<nz] ?s0)) = shape (the_mask ?s0)"
    using planes_list [of ?s0 nx ny enc polydata "[0..<nz]"] by blast
  then show ?thesis
    by (simp add: get_binary_mask_from_mesh_def Let_def length_meshgrid_yy np_zeros_def)
qed


text \<open>
  The planes may be processed in any order, each one as a whole, with the same result:
  every plane writes its own part of the mask, and refills the shared buffers first.
\<close>

lemma planes_any_order:
  fixes enc :: "'m \<Rightarrow> index3 \<Rightarrow> bool" and polydata :: 'm and nx ny nz :: nat
  defines "n \<equiv> nx * ny"
  defines "s0 \<equiv> \<lparr>xypts = set_points (meshgrid_xx ny nx) (meshgrid_yy ny nx) n 0 (replicate n (0, 0, 0)),
                  vert_is_inside = replicate n 0, the_mask = np_zeros (nz, ny, nx)\<rparr>"
  assumes "set zs = {0..<nz}"
  shows "the_mask (fold (ProcessThisPlane enc polydata (meshgrid_xx ny nx) (meshgrid_yy ny nx) n) zs s0)
           = get_binary_mask_from_mesh enc polydata (nx, ny, nz)"
proof -
  let ?P = "ProcessThisPlane enc polydata (meshgrid_xx ny nx) (meshgrid_yy ny nx) (nx * ny)"
  have l1: "length (xypts s0) = nx * ny"
    by (simp add: s0_def n_def set_points_eq)
  have l2: "length (vert_is_inside s0) = nx * ny"
    by (simp add: s0_def n_def)
  have run: "get_binary_mask_from_mesh enc polydata (nx, ny, nz) = the_mask (fold ?P [0..<nz] s0)"
    by (simp add: get_binary_mask_from_mesh_def Let_def length_meshgrid_yy s0_def n_def)
  have "shape (the_mask (fold ?P zs s0)) = shape (the_mask (fold ?P [0..<nz] s0))"
    using planes_list [OF l1 l2, of enc polydata zs] planes_list [OF l1 l2, of enc polydata "[0..<nz]"]
    by simp
  moreover have "elem (the_mask (fold ?P zs s0)) = elem (the_mask (fold ?P [0..<nz] s0))"
  proof
    fix p
    have "elem (the_mask (fold ?P zs s0)) p
            = (if p \<in> set zs \<times> {0..<ny} \<times> {0..<nx} then marker enc polydata p
               else elem (the_mask s0) p)"
      using planes_list [OF l1 l2, of enc polydata zs] by blast
    moreover have "elem (the_mask (fold ?P [0..<nz] s0)) p
            = (if p \<in> set [0..<nz] \<times> {0..<ny} \<times> {0..<nx} then marker enc polydata p
               else elem (the_mask s0) p)"
      using planes_list [OF l1 l2, of enc polydata "[0..<nz]"] by blast
    ultimately show "elem (the_mask (fold ?P zs s0)) p = elem (the_mask (fold ?P [0..<nz] s0)) p"
      using assms(3) by simp
  qed
  ultimately have "the_mask (fold ?P zs s0) = the_mask (fold ?P [0..<nz] s0)"
    by (rule ndarray.equality) simp
  then show ?thesis
    by (simp add: run n_def)
qed

section \<open>Properties of the aggregation\<close>

subsection \<open>The running sum\<close>

lemma bpos_in_bounds: "in_bounds a p \<Longrightarrow> bpos (shape a) p = p"
  by (cases "shape a"; cases p) (auto simp: in_bounds_def bpos_def bidx_def)

lemma np_add_same_shape:
  assumes "shape a = shape b"
  shows "\<exists>c. np_add a b = Inr c \<and> shape c = shape a
           \<and> (\<forall>p. in_bounds a p \<longrightarrow> elem c p = elem a p + elem b p)"
proof -
  obtain n0 n1 n2 where sa: "shape a = (n0, n1, n2)"
    by (cases "shape a") auto
  let ?c = "\<lparr>shape = (n0, n1, n2),
             elem = (\<lambda>p. elem a (bpos (shape a) p) + elem b (bpos (shape b) p))\<rparr>"
  have sb: "shape b = (n0, n1, n2)"
    using assms sa by simp
  have "np_add a b = Inr ?c"
    by (simp add: np_add_def bdim_def sa sb)
  moreover have "shape ?c = shape a"
    by (simp add: sa)
  moreover have "elem ?c p = elem a p + elem b p" if "in_bounds a p" for p
  proof -
    have "in_bounds b p" using that assms by (simp add: in_bounds_def)
    then show ?thesis using that by (simp add: bpos_in_bounds)
  qed
  ultimately show ?thesis by blast
qed

lemma sum_loop_total:
  assumes "\<And>i. i \<in> set rows \<Longrightarrow> i < length df" and "shape s = (nz, ny, nx)"
  shows "\<exists>s'. sum_loop enc df (nx, ny, nz) rows s = Inr s' \<and> shape s' = (nz, ny, nx)
           \<and> (\<forall>p. in_bounds s p \<longrightarrow>
                 elem s' p = elem s p
                   + (\<Sum>i\<leftarrow>rows. elem (get_binary_mask_from_mesh enc (df ! i) (nx, ny, nz)) p))"
  using assms
proof (induction rows arbitrary: s)
  case Nil
  then show ?case by simp
next
  case (Cons i rows)
  let ?v = "get_binary_mask_from_mesh enc (df ! i) (nx, ny, nz)"
  have i: "i < length df"
    by (simp add: Cons.prems(1))
  have "shape s = shape ?v"
    by (simp add: Cons.prems(2) shape_get_binary_mask_from_mesh)
  then obtain c where c: "np_add s ?v = Inr c" "shape c = shape s"
    and cp: "\<And>p. in_bounds s p \<Longrightarrow> elem c p = elem s p + elem ?v p"
    using np_add_same_shape [of s ?v] by blast
  have "shape c = (nz, ny, nx)"
    by (simp add: c(2) Cons.prems(2))
  with Cons.IH [of c] Cons.prems(1)
  obtain s' where s': "sum_loop enc df (nx, ny, nz) rows c = Inr s'" "shape s' = (nz, ny, nx)"
    and sp: "\<And>p. in_bounds c p \<Longrightarrow>
               elem s' p = elem c p
                 + (\<Sum>i\<leftarrow>rows. elem (get_binary_mask_from_mesh enc (df ! i) (nx, ny, nz)) p)"
    by auto
  have run: "sum_loop enc df (nx, ny, nz) (i # rows) s = Inr s'"
    using i c(1) s'(1) by (simp add: get_mesh_polydata_def)
  have "elem s' p = elem s p
          + (\<Sum>i\<leftarrow>i # rows. elem (get_binary_mask_from_mesh enc (df ! i) (nx, ny, nz)) p)"
    if "in_bounds s p" for p
  proof -
    have "in_bounds c p" using that c(2) by (simp add: in_bounds_def)
    then show ?thesis using sp [of p] cp [OF that] by (simp add: add.assoc)
  qed
  with run s'(2) show ?case by blast
qed

lemma get_sum_mask_total:
  assumes "df \<noteq> []"
  shows "\<exists>s. get_sum_mask enc df (nx, ny, nz) = Inr s \<and> shape s = (nz, ny, nx)
           \<and> (\<forall>p. in_bounds s p \<longrightarrow>
                 elem s p = elem (get_binary_mask_from_mesh enc (df ! 0) (nx, ny, nz)) p
                   + (\<Sum>m\<leftarrow>df. elem (get_binary_mask_from_mesh enc m (nx, ny, nz)) p))"
proof -
  let ?v0 = "get_binary_mask_from_mesh enc (df ! 0) (nx, ny, nz)"
  have sh: "shape ?v0 = (nz, ny, nx)"
    by (rule shape_get_binary_mask_from_mesh)
  have "\<And>i. i \<in> set [0..<length df] \<Longrightarrow> i < length df"
    by simp
  from sum_loop_total [OF this sh, of "[0..<length df]" enc]
  obtain s where s: "sum_loop enc df (nx, ny, nz) [0..<length df] ?v0 = Inr s" "shape s = (nz, ny, nx)"
    and sp: "\<And>p. in_bounds ?v0 p \<Longrightarrow>
               elem s p = elem ?v0 p
                 + (\<Sum>i\<leftarrow>[0..<length df]. elem (get_binary_mask_from_mesh enc (df ! i) (nx, ny, nz)) p)"
    by blast
  have rows: "map (\<lambda>i. elem (get_binary_mask_from_mesh enc (df ! i) (nx, ny, nz)) p) [0..<length df]
                = map (\<lambda>m. elem (get_binary_mask_from_mesh enc m (nx, ny, nz)) p) df" for p
    by (rule nth_equalityI) simp_all
  have run: "get_sum_mask enc df (nx, ny, nz) = Inr s"
    using assms s(1) by (simp add: get_sum_mask_def get_mesh_polydata_def)
  have "elem s p = elem ?v0 p + (\<Sum>m\<leftarrow>df. elem (get_binary_mask_from_mesh enc m (nx, ny, nz)) p)"
    if "in_bounds s p" for p
  proof -
    have "in_bounds ?v0 p" using that s(2) sh by (simp add: in_bounds_def)
    then show ?thesis using sp [of p] by (simp add: rows)
  qed
  with run s(2) show ?thesis by blast
qed



lemma get_mean_mask_total:
  assumes "df \<noteq> []"
  shows "\<exists>s. get_sum_mask enc df imsize = Inr s
           \<and> get_mean_mask enc st df imsize
               = Inr (st(''nucleus_mesh_data/mean_nuc_mask'' \<mapsto> np_divide s (length df)),
                      np_divide s (length df))"
proof -
  obtain nx ny nz where "imsize = (nx, ny, nz)"
    by (cases imsize) auto
  then obtain s where "get_sum_mask enc df imsize = Inr s"
    using get_sum_mask_total [OF assms, of enc nx ny nz] by blast
  then show ?thesis
    by (simp add: get_mean_mask_def Let_def)
qed

lemma elem_np_divide:
  "n \<noteq> 0 \<Longrightarrow> elem (np_divide a n) p = Fin (real (unat (elem a p)) / real n)"
  by (simp add: np_divide_def)

lemma shape_np_divide: "shape (np_divide a n) = shape a"
  by (simp add: np_divide_def)

subsection \<open>Bounds\<close>

lemma marker_values: "marker enc polydata p = 0 \<or> marker enc polydata p = 255"
  by (cases p) (simp add: marker_def)

lemma unat_u8_le: "unat (w :: u8) \<le> 255"
proof -
  have "unat w < 2 ^ LENGTH(8)"
    by (rule unsigned_less)
  then show ?thesis by simp
qed

lemma quotient_le_255:
  fixes a n :: real
  assumes "0 \<le> a" and "a \<le> 255" and "1 \<le> n"
  shows "0 \<le> a / n \<and> a / n \<le> 255"
proof -
  have "a / n \<le> 255 / 1"
    using assms by (intro frac_le) simp_all
  moreover have "0 \<le> a / n"
    using assms by simp
  ultimately show ?thesis by simp
qed




section \<open>The shape of an occupancy volume\<close>

text \<open>
  Claim C7, as stated: for a size \<open>(nx, ny, nz)\<close> the first axis of the occupancy
  volume has length \<open>nx\<close>, the second \<open>ny\<close>, the third \<open>nz\<close>. For the size
  \<open>(1, 1, 2)\<close> the first axis of the volume does not have length \<open>nx = 1\<close>.
\<close>

theorem C7_first_axis_counterexample:
  "fst (shape (get_binary_mask_from_mesh encloses_all False (1, 1, 2))) \<noteq> 1"
  by (simp add: shape_get_binary_mask_from_mesh)

text \<open>
  Claim C7, amended: for every size \<open>(nx, ny, nz)\<close> the occupancy volume has the
  axes \<open>(nz, ny, nx)\<close>: the first axis has length \<open>nz\<close>, the second \<open>ny\<close>, the
  third \<open>nx\<close>.
\<close>

theorem C7_shape_is_nz_ny_nx:
  "shape (get_binary_mask_from_mesh enc polydata (nx, ny, nz)) = (nz, ny, nx)"
  by (rule shape_get_binary_mask_from_mesh)

section \<open>The range of the mean volume\<close>

text \<open>
  Claim C3, as stated: every element of the mean volume lies in \<open>[0, 1]\<close>. For a
  dataset of two meshes, the first enclosing no grid point and the second enclosing
  all, and a volume of one element, the mean is \<open>255 / 2\<close>.
\<close>

theorem C3_unit_interval_counterexample:
  "\<not> isl (get_mean_mask encloses_all Map.empty [False, True] (1, 1, 1))
   \<and> in_bounds (snd (projr (get_mean_mask encloses_all Map.empty [False, True] (1, 1, 1)))) (0, 0, 0)
   \<and> \<not> fl_between 0 1
          (elem (snd (projr (get_mean_mask encloses_all Map.empty [False, True] (1, 1, 1)))) (0, 0, 0))"
  by code_simp

text \<open>
  Claim C3, amended: for a dataset that is not empty the aggregation returns a mean
  volume of the shape of the occupancy volumes; every element of it is the element of
  the accumulated 8-bit sum divided by the count \<open>N\<close> with no rounding, and lies in
  \<open>[0, 255]\<close>, the scale of the inside marker.
\<close>

theorem C3_mean_in_marker_range:
  assumes "df \<noteq> []"
  shows "\<exists>s st' m. get_sum_mask enc df (nx, ny, nz) = Inr s
           \<and> get_mean_mask enc st df (nx, ny, nz) = Inr (st', m)
           \<and> shape m = (nz, ny, nx)
           \<and> (\<forall>p. in_bounds m p \<longrightarrow>
                 elem m p = Fin (real (unat (elem s p)) / real (length df))
                 \<and> fl_between 0 255 (elem m p))"
proof -
  obtain s where s: "get_sum_mask enc df (nx, ny, nz) = Inr s" and sh: "shape s = (nz, ny, nx)"
    using get_sum_mask_total [OF assms, of enc nx ny nz] by blast
  let ?m = "np_divide s (length df)"
  obtain s' where "get_sum_mask enc df (nx, ny, nz) = Inr s'"
    and "get_mean_mask enc st df (nx, ny, nz)
           = Inr (st(''nucleus_mesh_data/mean_nuc_mask'' \<mapsto> np_divide s' (length df)),
                  np_divide s' (length df))"
    using get_mean_mask_total [OF assms, of enc "(nx, ny, nz)" st] by blast
  with s have run: "get_mean_mask enc st df (nx, ny, nz)
           = Inr (st(''nucleus_mesh_data/mean_nuc_mask'' \<mapsto> ?m), ?m)"
    by simp
  have n: "length df \<noteq> 0"
    using assms by simp
  have val: "elem ?m p = Fin (real (unat (elem s p)) / real (length df))" for p
    using n by (rule elem_np_divide)
  have "fl_between 0 255 (elem ?m p)" for p
  proof -
    have "unat (elem s p) \<le> 255"
      by (rule unat_u8_le)
    then have "real (unat (elem s p)) \<le> 255"
      by linarith
    moreover have "1 \<le> real (length df)"
      using n by (cases df) simp_all
    moreover have "0 \<le> real (unat (elem s p))"
      by (rule of_nat_0_le_iff)
    ultimately have "0 \<le> real (unat (elem s p)) / real (length df)
        \<and> real (unat (elem s p)) / real (length df) \<le> 255"
      by (intro quotient_le_255)
    then show ?thesis
      by (simp only: val fl_between_def fl.case)
  qed
  with s run val show ?thesis
    by (simp add: shape_np_divide sh)
qed

text \<open>
  Claim C3, amended, at the dataset of two meshes above: the mean \<open>255 / 2\<close> of its
  one element lies in \<open>[0, 255]\<close>.
\<close>

theorem C3_mean_in_marker_range_witness:
  "[False, True] \<noteq> []
   \<and> in_bounds (snd (projr (get_mean_mask encloses_all Map.empty [False, True] (1, 1, 1)))) (0, 0, 0)
   \<and> fl_between 0 255
        (elem (snd (projr (get_mean_mask encloses_all Map.empty [False, True] (1, 1, 1)))) (0, 0, 0))"
proof -
  have ne: "[False, True] \<noteq> []"
    by simp
  from C3_mean_in_marker_range [OF ne, of encloses_all 1 1 1 Map.empty]
  obtain s :: "u8 ndarray" and st' m where run: "get_mean_mask encloses_all Map.empty [False, True] (1, 1, 1) = Inr (st', m)"
    and sh: "shape m = (1, 1, 1)"
    and all: "\<forall>p. in_bounds m p \<longrightarrow>
                elem m p = Fin (real (unat (elem s p)) / real (length [False, True]))
                \<and> fl_between 0 255 (elem m p)"
    by blast
  have ib: "in_bounds m (0, 0, 0)"
    by (simp add: in_bounds_def sh)
  with all have "fl_between 0 255 (elem m (0, 0, 0))"
    by blast
  with ib show ?thesis
    unfolding run by simp
qed

section \<open>The accumulated sum\<close>



section \<open>Each entry once\<close>

text \<open>
  Claim C1 says that the published mean is the sum of the \<open>N\<close> occupancy volumes,
  each entry taken once, divided by \<open>N\<close>. The loop starts from the volume of row 0
  and then adds every row, row 0 again among them. For a dataset of one mesh that
  encloses the only grid point, the accumulated sum is \<open>255 + 255 = 254\<close> in 8 bits
  and the mean that is saved and returned is 254, where the claim gives 255.
\<close>

theorem C1_first_entry_counted_twice:
  "\<not> isl (get_mean_mask encloses_all Map.empty [True] (1, 1, 1))
   \<and> elem (projr (get_sum_mask encloses_all [True] (1, 1, 1))) (0, 0, 0) = 254
   \<and> elem (snd (projr (get_mean_mask encloses_all Map.empty [True] (1, 1, 1)))) (0, 0, 0) = Fin 254
   \<and> elem (the (fst (projr (get_mean_mask encloses_all Map.empty [True] (1, 1, 1)))
                  ''nucleus_mesh_data/mean_nuc_mask'')) (0, 0, 0) = Fin 254
   \<and> arithmetic_mean encloses_all [True] (1, 1, 1) (0, 0, 0) = 255"
  by code_simp

section \<open>Shapes during the aggregation\<close>



section \<open>Properties of the rescaling\<close>

lemma scale_rows_frame:
  "a \<noteq> verts \<Longrightarrow> fst (scale_rows dz verts rows h) a = h a"
  by (induction rows arbitrary: h) (simp_all add: Let_def)

lemma scale_rows_length:
  "length (fst (scale_rows dz verts rows h) verts) = length (h verts)"
  by (induction rows arbitrary: h) (simp_all add: Let_def)

lemma scale_rows_Cons:
  "scale_rows dz verts (i # rows) h
     = (if length (h verts ! i) \<le> 2 then (h, Inl IndexError)
        else scale_rows dz verts rows (h(verts := (h verts)[i := scale_z dz (h verts ! i)])))"
  by (simp add: Let_def scale_z_def)

lemma scale_rows_row_length:
  "length (fst (scale_rows dz verts rows h) verts ! k) = length (h verts ! k)"
proof (induction rows arbitrary: h)
  case Nil
  show ?case by simp
next
  case (Cons i rows)
  let ?h = "h(verts := (h verts)[i := scale_z dz (h verts ! i)])"
  have "length (fst (scale_rows dz verts rows ?h) verts ! k) = length (?h verts ! k)"
    by (rule Cons.IH)
  also have "\<dots> = length (h verts ! k)"
    by (cases "i < length (h verts)")
       (simp_all add: nth_list_update list_update_beyond scale_z_def)
  finally have "length (fst (scale_rows dz verts rows ?h) verts ! k) = length (h verts ! k)" .
  then show ?case
    by (simp only: scale_rows_Cons split: if_split) simp
qed

lemma scale_rows_other_coordinates:
  "c \<noteq> 2 \<Longrightarrow> fst (scale_rows dz verts rows h) verts ! k ! c = h verts ! k ! c"
proof (induction rows arbitrary: h)
  case Nil
  show ?case by simp
next
  case (Cons i rows)
  let ?h = "h(verts := (h verts)[i := scale_z dz (h verts ! i)])"
  have "fst (scale_rows dz verts rows ?h) verts ! k ! c = ?h verts ! k ! c"
    using Cons.prems by (rule Cons.IH)
  also have "\<dots> = h verts ! k ! c"
    using Cons.prems
    by (cases "i < length (h verts)")
       (simp_all add: nth_list_update list_update_beyond scale_z_def)
  finally have "fst (scale_rows dz verts rows ?h) verts ! k ! c = h verts ! k ! c" .
  then show ?case
    by (simp only: scale_rows_Cons split: if_split) simp
qed

lemma scale_rows_all:
  assumes "distinct rows"
    and "\<And>i. i \<in> set rows \<Longrightarrow> i < length (h verts) \<and> 3 \<le> length (h verts ! i)"
  shows "scale_rows dz verts rows h
           = (h(verts := map (\<lambda>k. if k \<in> set rows then scale_z dz (h verts ! k) else h verts ! k)
                           [0..<length (h verts)]),
              Inr ())"
  using assms
proof (induction rows arbitrary: h)
  case Nil
  have "map (\<lambda>k. h verts ! k) [0..<length (h verts)] = h verts"
    by (rule map_nth)
  then show ?case by simp
next
  case (Cons i rows)
  let ?h = "h(verts := (h verts)[i := scale_z dz (h verts ! i)])"
  have i: "i < length (h verts)" "3 \<le> length (h verts ! i)" "i \<notin> set rows" "distinct rows"
    using Cons.prems by simp_all
  have rows: "j < length (?h verts) \<and> 3 \<le> length (?h verts ! j)" if "j \<in> set rows" for j
  proof -
    have "j \<noteq> i" using that i(3) by auto
    then show ?thesis using that Cons.prems(2) [of j] by simp
  qed
  have step: "scale_rows dz verts (i # rows) h = scale_rows dz verts rows ?h"
    using i(2) by (simp add: Let_def scale_z_def)
  have "scale_rows dz verts rows ?h
          = (?h(verts := map (\<lambda>k. if k \<in> set rows then scale_z dz (?h verts ! k) else ?h verts ! k)
                           [0..<length (?h verts)]),
             Inr ())"
    using i(4) rows by (rule Cons.IH)
  moreover have "map (\<lambda>k. if k \<in> set rows then scale_z dz (?h verts ! k) else ?h verts ! k)
                     [0..<length (?h verts)]
      = map (\<lambda>k. if k \<in> set (i # rows) then scale_z dz (h verts ! k) else h verts ! k)
            [0..<length (h verts)]"
    using i(1,3) by (auto simp: nth_list_update)
  ultimately show ?case
    by (simp only: step fun_upd_upd)
qed

lemma scale_rows_range:
  assumes "\<And>v. v \<in> set (h verts) \<Longrightarrow> 3 \<le> length v"
  shows "scale_rows dz verts [0..<length (h verts)] h
           = (h(verts := map (scale_z dz) (h verts)), Inr ())"
proof -
  have "scale_rows dz verts [0..<length (h verts)] h
          = (h(verts := map (\<lambda>k. if k \<in> set [0..<length (h verts)] then scale_z dz (h verts ! k)
                                   else h verts ! k) [0..<length (h verts)]),
             Inr ())"
    by (rule scale_rows_all) (simp_all add: assms)
  moreover have "map (\<lambda>k. if k \<in> set [0..<length (h verts)] then scale_z dz (h verts ! k)
                            else h verts ! k) [0..<length (h verts)]
                   = map (scale_z dz) (h verts)"
    by (rule nth_equalityI) simp_all
  ultimately show ?thesis by simp
qed

lemma np_round_nearest: "\<bar>r - of_int (np_round r)\<bar> \<le> 1 / 2"
proof -
  have "of_int \<lfloor>r\<rfloor> \<le> r" and "r < of_int \<lfloor>r\<rfloor> + 1"
    by linarith+
  then show ?thesis
    by (auto simp: np_round_def Let_def)
qed

lemma fix_z_zero: "fix_z h verts 0 imsize = (h, Inl ZeroDivisionError)"
  by (simp add: fix_z_def)

lemma fix_z_fst:
  "dz \<noteq> 0 \<Longrightarrow>
     fst (fix_z h verts dz imsize)
       = fst (scale_rows (fl_div (Fin imsize) (Fin (of_int (np_round (imsize / dz)))))
                verts [0..<length (h verts)] h)"
  by (simp add: fix_z_def Let_def split: prod.split sum.split)

lemma fix_z_returns:
  assumes "dz \<noteq> 0" and "has_xyz (h verts)"
  shows "fix_z h verts dz imsize
           = (h(verts := map (scale_z (fl_div (Fin imsize) (Fin (of_int (np_round (imsize / dz))))))
                          (h verts)),
              Inr verts)"
proof -
  have "\<And>v. v \<in> set (h verts) \<Longrightarrow> 3 \<le> length v"
    using assms(2) by (simp add: has_xyz_def list_all_iff)
  then have "scale_rows (fl_div (Fin imsize) (Fin (of_int (np_round (imsize / dz)))))
               verts [0..<length (h verts)] h
          = (h(verts := map (scale_z (fl_div (Fin imsize) (Fin (of_int (np_round (imsize / dz))))))
                          (h verts)),
             Inr ())"
    by (rule scale_rows_range)
  then show ?thesis
    using assms(1) by (simp add: fix_z_def Let_def)
qed

lemma snd_fix_z:
  "snd (fix_z h verts dz imsize) = Inr a \<Longrightarrow> a = verts"
  by (auto simp: fix_z_def Let_def split: if_splits prod.splits sum.splits)

section \<open>What the rescaling does\<close>




text \<open>
  Claim C10: \<^verbatim>\<open>fix_z\<close> changes the array it is given and returns that same array.
  Whatever the arguments, no other array of the heap changes, the array keeps its
  number of vertices, every vertex keeps its number of coordinates and all of them but
  the one at index 2 (so those at index 0 and 1); what is returned can only be the
  address it was given. For \<open>dz\<close> not zero and vertices of three coordinates it does
  return it, and the array at that address then holds the rescaled vertices.
\<close>

theorem C10_fix_z_in_place:
  "(\<forall>a. a \<noteq> verts \<longrightarrow> fst (fix_z h verts dz imsize) a = h a)
   \<and> length (fst (fix_z h verts dz imsize) verts) = length (h verts)
   \<and> (\<forall>k. k < length (h verts) \<longrightarrow>
         length (fst (fix_z h verts dz imsize) verts ! k) = length (h verts ! k)
         \<and> fst (fix_z h verts dz imsize) verts ! k ! 0 = h verts ! k ! 0
         \<and> fst (fix_z h verts dz imsize) verts ! k ! 1 = h verts ! k ! 1
         \<and> (\<forall>c. c \<noteq> 2 \<longrightarrow> fst (fix_z h verts dz imsize) verts ! k ! c = h verts ! k ! c))
   \<and> (\<forall>a. snd (fix_z h verts dz imsize) = Inr a \<longrightarrow> a = verts)
   \<and> (dz \<noteq> 0 \<and> has_xyz (h verts) \<longrightarrow>
         snd (fix_z h verts dz imsize) = Inr verts
         \<and> fst (fix_z h verts dz imsize) verts
             = map (scale_z (fl_div (Fin imsize) (Fin (of_int (np_round (imsize / dz))))))
                 (h verts))"
proof (cases "dz = 0")
  case True
  then have "fix_z h verts dz imsize = (h, Inl ZeroDivisionError)"
    by (simp add: fix_z_zero)
  with True show ?thesis by simp
next
  case False
  let ?dz = "fl_div (Fin imsize) (Fin (of_int (np_round (imsize / dz))))"
  have heap: "fst (fix_z h verts dz imsize) = fst (scale_rows ?dz verts [0..<length (h verts)] h)"
    using False by (rule fix_z_fst)
  have frame: "fst (fix_z h verts dz imsize) a = h a" if "a \<noteq> verts" for a
    using that by (simp add: heap scale_rows_frame)
  have len: "length (fst (fix_z h verts dz imsize) verts) = length (h verts)"
    by (simp add: heap scale_rows_length)
  have row: "length (fst (fix_z h verts dz imsize) verts ! k) = length (h verts ! k)" for k
    by (simp add: heap scale_rows_row_length)
  have other: "fst (fix_z h verts dz imsize) verts ! k ! c = h verts ! k ! c" if "c \<noteq> 2" for k c
    using that by (simp add: heap scale_rows_other_coordinates)
  have x: "fst (fix_z h verts dz imsize) verts ! k ! 0 = h verts ! k ! 0" for k
    by (rule other) simp
  have y: "fst (fix_z h verts dz imsize) verts ! k ! 1 = h verts ! k ! 1" for k
    by (rule other) simp
  have ret: "a = verts" if "snd (fix_z h verts dz imsize) = Inr a" for a
    using that by (rule snd_fix_z)
  have normal: "snd (fix_z h verts dz imsize) = Inr verts
                \<and> fst (fix_z h verts dz imsize) verts = map (scale_z ?dz) (h verts)"
    if "has_xyz (h verts)"
    using fix_z_returns [where h = h and verts = verts and dz = dz and imsize = imsize, OF False that]
    by simp
  from frame len row other x y ret normal show ?thesis
    by blast
qed

text \<open>
  Claim C10 at the same input: the array at address 1 is as before, the array at
  address 0 has kept its length and the first two coordinates of its vertex, and the
  address returned is 0.
\<close>

theorem C10_fix_z_in_place_witness:
  "(1::nat) \<noteq> 0 \<and> fst (fix_z heap_one_vertex 0 3 4) 1 = heap_one_vertex 1
   \<and> length (fst (fix_z heap_one_vertex 0 3 4) 0) = length (heap_one_vertex 0)
   \<and> (0::nat) < length (heap_one_vertex 0)
   \<and> fst (fix_z heap_one_vertex 0 3 4) 0 ! 0 ! 0 = heap_one_vertex 0 ! 0 ! 0
   \<and> fst (fix_z heap_one_vertex 0 3 4) 0 ! 0 ! 1 = heap_one_vertex 0 ! 0 ! 1
   \<and> (3::real) \<noteq> 0 \<and> has_xyz (heap_one_vertex 0)
   \<and> snd (fix_z heap_one_vertex 0 3 4) = Inr 0
   \<and> fst (fix_z heap_one_vertex 0 3 4) 0
        = map (scale_z (fl_div (Fin 4) (Fin (of_int (np_round (4 / 3)))))) (heap_one_vertex 0)"
proof -
  have h1: "(1::nat) \<noteq> 0" and h2: "(0::nat) < length (heap_one_vertex 0)"
    and h3: "(3::real) \<noteq> 0" and h4: "has_xyz (heap_one_vertex 0)"
    by (simp_all add: heap_one_vertex_def has_xyz_def)
  note fact = C10_fix_z_in_place [where h = heap_one_vertex and verts = 0 and dz = 3 and imsize = 4]
  from fact h1 have frame: "fst (fix_z heap_one_vertex 0 3 4) 1 = heap_one_vertex 1"
    by blast
  from fact have len: "length (fst (fix_z heap_one_vertex 0 3 4) 0) = length (heap_one_vertex 0)"
    by blast
  from fact h2 have xy: "fst (fix_z heap_one_vertex 0 3 4) 0 ! 0 ! 0 = heap_one_vertex 0 ! 0 ! 0"
    "fst (fix_z heap_one_vertex 0 3 4) 0 ! 0 ! 1 = heap_one_vertex 0 ! 0 ! 1"
    by blast+
  from fact h3 h4 have ret: "snd (fix_z heap_one_vertex 0 3 4) = Inr 0"
    "fst (fix_z heap_one_vertex 0 3 4) 0
       = map (scale_z (fl_div (Fin 4) (Fin (of_int (np_round (4 / 3)))))) (heap_one_vertex 0)"
    by blast+
  from h1 h2 h3 h4 frame len xy ret show ?thesis
    by blast
qed

section \<open>The master function and the rescaling\<close>

text \<open>
  \<^verbatim>\<open>get_mean_mesh\<close> forwards what the marching-cubes routine returns or raises: it
  fails exactly when the routine does, and returns the routine's vertices and faces.
\<close>

lemma get_mean_mesh_forwards:
  "isl (get_mean_mesh mc mask_vol ss) = isl (mc mask_vol ss)"
  "(get_mean_mesh mc mask_vol ss = Inr (verts, faces))
     = (\<exists>normals vals. mc mask_vol ss = Inr (verts, faces, normals, vals))"
  by (auto simp: get_mean_mesh_def split: sum.splits prod.splits)

lemma master_returns_marching_cubes_vertices:
  assumes "get_mean_mesh_from_individual_meshes enc mc st df imsize = Inr (st', verts, faces, mask_vol)"
  shows "\<exists>normals vals. mc mask_vol imsize = Inr (verts, faces, normals, vals)"
  using assms
  by (auto simp: get_mean_mesh_from_individual_meshes_def get_mean_mesh_def
           split: sum.splits prod.splits)


end
